theory Spec2Isabelle
  imports Main
begin

unbundle bit_operations_syntax

section \<open>Python primitives used by the parser\<close>

text \<open>
  The program is \<^verbatim>\<open>parse_minervga_lbr.py\<close>. Its text is a Python \<^verbatim>\<open>str\<close>; the model
  represents it as a \<^typ>\<open>string\<close> whose characters stand for code points below 256.
  Python integers are unbounded and are modelled by \<^typ>\<open>int\<close>; \<^verbatim>\<open>//\<close> and \<^verbatim>\<open>%\<close> with the
  positive divisor 16 are \<open>div\<close> and \<open>mod\<close>. The two exceptions the code can raise on its
  own data are values of \<open>py_error\<close>. The length limit that recent interpreters put on
  decimal literals given to \<^verbatim>\<open>int()\<close> is a configuration of the interpreter and is not
  part of the model.
\<close>

datatype py_error = ValueError | IndexError

text \<open>\<^verbatim>\<open>str.isspace\<close> on the code points below 256.\<close>

definition is_space :: "char \<Rightarrow> bool" where
  "is_space c = (c \<in> set [CHR 0x09, CHR 0x0A, CHR 0x0B, CHR 0x0C, CHR 0x0D, CHR 0x1C,
                           CHR 0x1D, CHR 0x1E, CHR 0x1F, CHR 0x20, CHR 0x85, CHR 0xA0])"

text \<open>\<^verbatim>\<open>s.strip()\<close> and \<^verbatim>\<open>s.strip('"')\<close>: drop the matching characters at both ends.\<close>

definition strip_with :: "(char \<Rightarrow> bool) \<Rightarrow> string \<Rightarrow> string" where
  "strip_with P s = rev (dropWhile P (rev (dropWhile P s)))"

definition py_strip :: "string \<Rightarrow> string" where
  "py_strip s = strip_with is_space s"

definition strip_quotes :: "string \<Rightarrow> string" where
  "strip_quotes s = strip_with (\<lambda>c. c = CHR 0x22) s"

text \<open>\<^verbatim>\<open>s.split(sep)\<close> for a separator of one character: never an empty list.\<close>

fun py_split :: "char \<Rightarrow> string \<Rightarrow> string list" where
  "py_split sep [] = [[]]"
| "py_split sep (c # cs) =
     (if c = sep then [] # py_split sep cs
      else (case py_split sep cs of [] \<Rightarrow> [[c]] | p # ps \<Rightarrow> (c # p) # ps))"

text \<open>
  \<^verbatim>\<open>int(s)\<close> on a string: surrounding whitespace is ignored, one sign is allowed, then
  decimal digits with single underscores between digits. \<open>None\<close> stands for the
  \<^verbatim>\<open>ValueError\<close> the call raises. The whitespace that \<^verbatim>\<open>int\<close> ignores is narrower than
  that of \<^verbatim>\<open>strip\<close>: the four separator characters \<open>0x1C\<close> to \<open>0x1F\<close> are not in it.
\<close>

definition is_int_space :: "char \<Rightarrow> bool" where
  "is_int_space c = (c \<in> set [CHR 0x09, CHR 0x0A, CHR 0x0B, CHR 0x0C, CHR 0x0D, CHR 0x20,
                               CHR 0x85, CHR 0xA0])"

definition is_digit :: "char \<Rightarrow> bool" where
  "is_digit c = (c \<in> set ''0123456789'')"

definition digit_val :: "char \<Rightarrow> nat" where
  "digit_val c = of_char c - 48"

fun parse_digits :: "nat \<Rightarrow> bool \<Rightarrow> string \<Rightarrow> nat option" where
  "parse_digits acc prev_digit [] = (if prev_digit then Some acc else None)"
| "parse_digits acc prev_digit (c # cs) =
     (if is_digit c then parse_digits (10 * acc + digit_val c) True cs
      else if c = CHR ''_'' \<and> prev_digit then parse_digits acc False cs
      else None)"

definition py_int :: "string \<Rightarrow> int option" where
  "py_int s =
     (case strip_with is_int_space s of
        [] \<Rightarrow> None
      | c # cs \<Rightarrow>
          if c = CHR ''-'' then map_option (\<lambda>n. - int n) (parse_digits 0 False cs)
          else if c = CHR ''+'' then map_option int (parse_digits 0 False cs)
          else map_option int (parse_digits 0 False (c # cs)))"

text \<open>\<^verbatim>\<open>xs[a:b]\<close> with literal bounds \<open>0 \<le> a \<le> b\<close>, and \<^verbatim>\<open>xs[:n]\<close> for any integer \<open>n\<close>
  (a negative \<open>n\<close> counts from the end). Slices never raise.\<close>

definition py_slice :: "nat \<Rightarrow> nat \<Rightarrow> 'a list \<Rightarrow> 'a list" where
  "py_slice a b xs = take (b - a) (drop a xs)"

definition py_slice_to :: "int \<Rightarrow> 'a list \<Rightarrow> 'a list" where
  "py_slice_to n xs =
     (if n < 0 then take (nat (int (length xs) + n)) xs else take (nat n) xs)"

text \<open>A \<^verbatim>\<open>for\<close> loop that appends one result per element and stops at the first exception.\<close>

fun for_each :: "('a \<Rightarrow> py_error + 'b) \<Rightarrow> 'a list \<Rightarrow> py_error + 'b list" where
  "for_each f [] = Inr []"
| "for_each f (x # xs) =
     (case f x of
        Inl e \<Rightarrow> Inl e
      | Inr y \<Rightarrow> (case for_each f xs of Inl e \<Rightarrow> Inl e | Inr ys \<Rightarrow> Inr (y # ys)))"

section \<open>Plane decoder\<close>

definition signed_to_unsigned_16 :: "int \<Rightarrow> int" where
  "signed_to_unsigned_16 val = (if val < 0 then val + 65536 else val)"

text \<open>\<^verbatim>\<open>extract_bits(value, num_bits=16)\<close>; every call of the program uses the default.\<close>

definition extract_bits_n :: "int \<Rightarrow> nat \<Rightarrow> int list" where
  "extract_bits_n val num_bits =
     (let bits = map (\<lambda>i. drop_bit i val AND 1) (rev [0..<num_bits])
      in py_slice 8 16 bits @ py_slice 0 8 bits)"

definition extract_bits :: "int \<Rightarrow> int list" where
  "extract_bits val = extract_bits_n val 16"

text \<open>Bit \<open>i\<close> of an integer as 0 or 1, the reading the statements below use.\<close>

definition bit_of :: "int \<Rightarrow> nat \<Rightarrow> int" where
  "bit_of val i = (if bit val i then 1 else 0)"

section \<open>Sprite rasterizer\<close>

text \<open>What the program prints, as values; the numbers are the row or line numbers of the
  formatted strings.\<close>

datatype message =
    Library_line string
  | Sprite_count_line int
  | Empty_line
  | Skipping_invalid_line nat
  | Error_parsing_line nat
  | Warning_not_enough_data nat

text \<open>\<^verbatim>\<open>words_per_row\<close> is computed at the head of \<^verbatim>\<open>parse_sprite_data\<close> and never read.\<close>

definition words_per_row :: "int \<Rightarrow> int" where
  "words_per_row width = (if width mod 16 \<noteq> 0 then 4 else (width div 16) * 4)"

text \<open>\<^verbatim>\<open>signed_to_unsigned_16(int(data_values[i]))\<close>: the subscript raises \<^verbatim>\<open>IndexError\<close>
  out of range, the conversion \<^verbatim>\<open>ValueError\<close> on a token that is no integer.\<close>

definition read_plane :: "string list \<Rightarrow> nat \<Rightarrow> py_error + int" where
  "read_plane data_values i =
     (if i < length data_values then
        (case py_int (data_values ! i) of
           None \<Rightarrow> Inl ValueError
         | Some val \<Rightarrow> Inr (signed_to_unsigned_16 val))
      else Inl IndexError)"

text \<open>The plane values of one row; the flag says that the zero padding was taken.\<close>

definition get_plane_values :: "string list \<Rightarrow> nat \<Rightarrow> py_error + (bool \<times> int list)" where
  "get_plane_values data_values data_idx =
     (if data_idx + 4 > length data_values then Inr (True, [0, 0, 0, 0])
      else (case for_each (\<lambda>p. read_plane data_values (data_idx + p)) [0..<4] of
              Inl e \<Rightarrow> Inl e
            | Inr plane_values \<Rightarrow> Inr (False, plane_values)))"

text \<open>\<^verbatim>\<open>plane_bits[k][x]\<close>, with the range checks of both subscripts.\<close>

definition plane_bit :: "int list list \<Rightarrow> nat \<Rightarrow> nat \<Rightarrow> py_error + int" where
  "plane_bit plane_bits k x =
     (if k < length plane_bits \<and> x < length (plane_bits ! k) then Inr (plane_bits ! k ! x)
      else Inl IndexError)"

definition pixel_color :: "int list list \<Rightarrow> nat \<Rightarrow> py_error + int" where
  "pixel_color plane_bits x =
     (if x < 16 then
        (case plane_bit plane_bits 0 x of Inl e \<Rightarrow> Inl e | Inr b0 \<Rightarrow>
        (case plane_bit plane_bits 1 x of Inl e \<Rightarrow> Inl e | Inr b1 \<Rightarrow>
        (case plane_bit plane_bits 2 x of Inl e \<Rightarrow> Inl e | Inr b2 \<Rightarrow>
        (case plane_bit plane_bits 3 x of Inl e \<Rightarrow> Inl e | Inr b3 \<Rightarrow>
           Inr (push_bit 0 b0 OR push_bit 1 b1 OR push_bit 2 b2 OR push_bit 3 b3)))))
      else Inr 0)"

text \<open>The loop over the rows, with the cursor \<^verbatim>\<open>data_idx\<close> as an argument. The result is the
  warnings printed and the pixel rows.\<close>

fun rows_loop ::
  "string list \<Rightarrow> int \<Rightarrow> nat \<Rightarrow> nat list \<Rightarrow> py_error + (message list \<times> int list list)" where
  "rows_loop data_values width data_idx [] = Inr ([], [])"
| "rows_loop data_values width data_idx (row # rows) =
     (case get_plane_values data_values data_idx of
        Inl e \<Rightarrow> Inl e
      | Inr (short, plane_values) \<Rightarrow>
          (case for_each (pixel_color (map extract_bits plane_values)) [0..<nat width] of
             Inl e \<Rightarrow> Inl e
           | Inr row_pixels \<Rightarrow>
               (case rows_loop data_values width (data_idx + 4) rows of
                  Inl e \<Rightarrow> Inl e
                | Inr (msgs, pixels) \<Rightarrow>
                    Inr ((if short then [Warning_not_enough_data row] else []) @ msgs,
                         row_pixels # pixels))))"

definition parse_sprite_data ::
  "string list \<Rightarrow> int \<Rightarrow> int \<Rightarrow> py_error + (message list \<times> int list list)" where
  "parse_sprite_data data_values width height =
     rows_loop data_values width 0 [0..<nat height]"

section \<open>Record tokenizer\<close>

text \<open>The character loop of \<^verbatim>\<open>parse_lbr_file\<close>, lines 150 to 164, with its three variables
  as arguments.\<close>

fun tokenize_loop :: "string list \<Rightarrow> bool \<Rightarrow> string \<Rightarrow> string \<Rightarrow> string list" where
  "tokenize_loop parts in_quotes current [] =
     (if current \<noteq> [] then parts @ [py_strip current] else parts)"
| "tokenize_loop parts in_quotes current (c # cs) =
     (if c = CHR 0x22 then tokenize_loop parts (\<not> in_quotes) (current @ [c]) cs
      else if c = CHR '','' \<and> \<not> in_quotes then tokenize_loop (parts @ [py_strip current]) in_quotes [] cs
      else tokenize_loop parts in_quotes (current @ [c]) cs)"

definition tokenize :: "string \<Rightarrow> string list" where
  "tokenize line = tokenize_loop [] False [] line"

text \<open>
  The tokenizer as the specification words it: the line is cut at every comma that has an
  even number of quote characters before it, a last piece that is empty is dropped, and
  every piece is stripped. \<open>split_unquoted\<close> is the cut, with the quote flag as argument.
\<close>

fun split_unquoted :: "bool \<Rightarrow> string \<Rightarrow> string list" where
  "split_unquoted q [] = [[]]"
| "split_unquoted q (c # cs) =
     (if c = CHR '','' \<and> \<not> q then [] # split_unquoted q cs
      else (case split_unquoted (if c = CHR 0x22 then \<not> q else q) cs of
              [] \<Rightarrow> [[c]]
            | p # ps \<Rightarrow> (c # p) # ps))"

definition tokenize_spec :: "string \<Rightarrow> string list" where
  "tokenize_spec line =
     (let pieces = split_unquoted False line
      in map py_strip (if last pieces = [] then butlast pieces else pieces))"

text \<open>\<^verbatim>\<open>sep.join(pieces)\<close> for a separator of one character, to state that a cut loses no
  character.\<close>

fun py_join :: "char \<Rightarrow> string list \<Rightarrow> string" where
  "py_join sep [] = []"
| "py_join sep [p] = p"
| "py_join sep (p # q # ps) = p @ sep # py_join sep (q # ps)"

text \<open>The positions of the commas that have an even number of quote characters before them.\<close>

definition split_points :: "string \<Rightarrow> nat list" where
  "split_points line =
     filter (\<lambda>i. line ! i = CHR '','' \<and> even (length (filter (\<lambda>c. c = CHR 0x22) (take i line))))
       [0..<length line]"

section \<open>Library parser\<close>

record sprite =
  sprite_index :: int
  sprite_name :: string
  sprite_width :: int
  sprite_height :: int
  sprite_data :: "string list"

definition expected_data :: "int \<Rightarrow> int \<Rightarrow> int" where
  "expected_data width height =
     (let e = (width div 16) * 4 * height in if e = 0 then 4 * height else e)"

definition trim_data :: "int \<Rightarrow> int \<Rightarrow> string list \<Rightarrow> string list" where
  "trim_data width height data_values =
     (if int (length data_values) > expected_data width height
      then py_slice_to (expected_data width height) data_values
      else data_values)"

text \<open>The body of the loop over the record lines. \<open>Parse_error\<close> is the \<^verbatim>\<open>except\<close> branch,
  which catches the \<^verbatim>\<open>ValueError\<close> of the three conversions.\<close>

datatype line_result = Blank_line | Too_few_parts | Parse_error | Parsed sprite

definition parse_record_line :: "string \<Rightarrow> line_result" where
  "parse_record_line line =
     (if py_strip line = [] then Blank_line
      else let parts = tokenize line in
        if length parts < 5 then Too_few_parts
        else (case py_int (parts ! 0) of None \<Rightarrow> Parse_error | Some sprite_idx \<Rightarrow>
             (case py_int (parts ! 2) of None \<Rightarrow> Parse_error | Some width \<Rightarrow>
             (case py_int (parts ! 3) of None \<Rightarrow> Parse_error | Some height \<Rightarrow>
                Parsed \<lparr>sprite_index = sprite_idx,
                        sprite_name = strip_quotes (parts ! 1),
                        sprite_width = width,
                        sprite_height = height,
                        sprite_data = trim_data width height (drop 4 parts)\<rparr>))))"

fun parse_lines :: "nat \<Rightarrow> string list \<Rightarrow> sprite list \<times> message list" where
  "parse_lines line_num [] = ([], [])"
| "parse_lines line_num (line # rest) =
     (case parse_lines (Suc line_num) rest of (sprites, msgs) \<Rightarrow>
        (case parse_record_line line of
           Blank_line \<Rightarrow> (sprites, msgs)
         | Too_few_parts \<Rightarrow> (sprites, Skipping_invalid_line line_num # msgs)
         | Parse_error \<Rightarrow> (sprites, Error_parsing_line line_num # msgs)
         | Parsed s \<Rightarrow> (s # sprites, msgs)))"

text \<open>The header: \<^verbatim>\<open>header_parts[1]\<close> raises \<^verbatim>\<open>IndexError\<close> when the line has no comma,
  \<^verbatim>\<open>int\<close> raises \<^verbatim>\<open>ValueError\<close>; neither is caught.\<close>

definition parse_header :: "string \<Rightarrow> py_error + (string \<times> int)" where
  "parse_header line =
     (case py_split CHR '','' line of
        [] \<Rightarrow> Inl IndexError
      | h0 # rest \<Rightarrow>
          (case rest of
             [] \<Rightarrow> Inl IndexError
           | h1 # _ \<Rightarrow>
               (case py_int h1 of
                  None \<Rightarrow> Inl ValueError
                | Some sprite_count \<Rightarrow> Inr (strip_quotes h0, sprite_count))))"

definition split_lines :: "string \<Rightarrow> string list" where
  "split_lines content = py_split CHR 0x0A (py_strip content)"

record library =
  library_name :: string
  sprites :: "sprite list"
  printed :: "message list"

definition parse_lbr_file :: "string \<Rightarrow> py_error + library" where
  "parse_lbr_file content =
     (case split_lines content of
        [] \<Rightarrow> Inl IndexError
      | header # rest \<Rightarrow>
          (case parse_header header of
             Inl e \<Rightarrow> Inl e
           | Inr (name, sprite_count) \<Rightarrow>
               (case parse_lines 2 rest of (sprs, msgs) \<Rightarrow>
                  Inr \<lparr>library_name = name,
                       sprites = sprs,
                       printed = [Library_line name, Sprite_count_line sprite_count, Empty_line]
                                   @ msgs\<rparr>)))"

section \<open>Notions used to state the properties\<close>

text \<open>A data sequence of numeric tokens: every token is accepted by \<^verbatim>\<open>int()\<close>.\<close>

definition numeric_tokens :: "string list \<Rightarrow> bool" where
  "numeric_tokens data_values = list_all (\<lambda>t. py_int t \<noteq> None) data_values"

text \<open>Row \<open>r\<close> lacks some of its four words: the test of the rasterizer at cursor \<open>4 * r\<close>.\<close>

definition row_short :: "string list \<Rightarrow> nat \<Rightarrow> bool" where
  "row_short data_values r = (4 * r + 4 > length data_values)"

text \<open>The unsigned plane word at a position of the data, for a token that is an integer.\<close>

definition word_at :: "string list \<Rightarrow> nat \<Rightarrow> int" where
  "word_at data_values i =
     (case py_int (data_values ! i) of None \<Rightarrow> 0 | Some val \<Rightarrow> signed_to_unsigned_16 val)"

text \<open>The four plane words of row \<open>r\<close>: the words at \<open>4 * r\<close> to \<open>4 * r + 3\<close>, or zeros.\<close>

definition row_planes :: "string list \<Rightarrow> nat \<Rightarrow> int list" where
  "row_planes data_values r =
     (if row_short data_values r then [0, 0, 0, 0]
      else map (\<lambda>p. word_at data_values (4 * r + p)) [0..<4])"

text \<open>The colour that four plane words give at column \<open>x\<close>.\<close>

definition plane_color :: "int list \<Rightarrow> nat \<Rightarrow> int" where
  "plane_color planes x =
     (if x < 16 then
        extract_bits (planes ! 0) ! x OR push_bit 1 (extract_bits (planes ! 1) ! x)
          OR push_bit 2 (extract_bits (planes ! 2) ! x)
          OR push_bit 3 (extract_bits (planes ! 3) ! x)
      else 0)"

section \<open>Plane decoder: properties\<close>

lemma and_one_bit_of: "drop_bit i val AND 1 = bit_of val i"
  by (simp add: bit_of_def and_one_eq mod2_eq_if bit_iff_odd_drop_bit)

lemma extract_bits_list:
  "extract_bits val =
     [bit_of val 7, bit_of val 6, bit_of val 5, bit_of val 4,
      bit_of val 3, bit_of val 2, bit_of val 1, bit_of val 0,
      bit_of val 15, bit_of val 14, bit_of val 13, bit_of val 12,
      bit_of val 11, bit_of val 10, bit_of val 9, bit_of val 8]"
  by (simp add: extract_bits_def extract_bits_n_def py_slice_def and_one_bit_of upt_rec
      eval_nat_numeral)

lemma length_extract_bits: "length (extract_bits val) = 16"
  by (simp add: extract_bits_list)

text \<open>
  Claim C2. For a signed 16-bit value \<open>v\<close> the decoder works on the unsigned reading of
  \<open>v\<close> (65536 is added to a negative value, which is \<open>v mod 65536\<close>); the 16 bits it returns
  are bits 7 down to 0 followed by bits 15 down to 8, so position \<open>i\<close> holds bit \<open>7 - i\<close>
  for \<open>i < 8\<close> and bit \<open>23 - i\<close> for \<open>8 \<le> i < 16\<close>. The word \<open>0xFF00\<close> decodes to eight
  zeros followed by eight ones.
\<close>

theorem plane_decoder_bit_order:
  assumes "- 32768 \<le> v" and "v < 32768"
  shows "signed_to_unsigned_16 v = (if v < 0 then v + 65536 else v)
       \<and> signed_to_unsigned_16 v = v mod 65536
       \<and> extract_bits (signed_to_unsigned_16 v) =
           map (bit_of (signed_to_unsigned_16 v))
             ([7, 6, 5, 4, 3, 2, 1, 0] @ [15, 14, 13, 12, 11, 10, 9, 8])
       \<and> (\<forall>i<16. extract_bits (signed_to_unsigned_16 v) ! i =
             (if i < 8 then bit_of (signed_to_unsigned_16 v) (7 - i)
              else bit_of (signed_to_unsigned_16 v) (23 - i)))
       \<and> extract_bits (signed_to_unsigned_16 0xFF00) =
           [0, 0, 0, 0, 0, 0, 0, 0, 1, 1, 1, 1, 1, 1, 1, 1]"
proof -
  have u: "signed_to_unsigned_16 v = v mod 65536"
  proof (cases "v < 0")
    case True
    have "v mod 65536 = (v + 65536) mod 65536" by simp
    also have "\<dots> = v + 65536"
      by (rule mod_pos_pos_trivial) (use assms True in auto)
    finally show ?thesis using True by (simp add: signed_to_unsigned_16_def)
  next
    case False
    with assms show ?thesis by (simp add: signed_to_unsigned_16_def)
  qed
  have idx: "\<forall>i<16. extract_bits u ! i = (if i < 8 then bit_of u (7 - i) else bit_of u (23 - i))"
    for u
    by (simp add: extract_bits_list less_Suc_eq eval_nat_numeral all_conj_distrib)
  have ex: "extract_bits (signed_to_unsigned_16 0xFF00) =
      [0, 0, 0, 0, 0, 0, 0, 0, 1, 1, 1, 1, 1, 1, 1, 1]"
    by (simp add: signed_to_unsigned_16_def extract_bits_list bit_of_def)
  show ?thesis
    using u idx ex by (simp add: signed_to_unsigned_16_def extract_bits_list)
qed

theorem plane_decoder_bit_order_witness:
  "signed_to_unsigned_16 (- 256) = 65280
   \<and> extract_bits (signed_to_unsigned_16 (- 256)) =
       [0, 0, 0, 0, 0, 0, 0, 0, 1, 1, 1, 1, 1, 1, 1, 1]"
  using plane_decoder_bit_order [of "- 256"]
  by (simp add: signed_to_unsigned_16_def extract_bits_list bit_of_def)

section \<open>Sprite rasterizer: properties\<close>

lemma for_each_Inr:
  "(\<And>x. x \<in> set xs \<Longrightarrow> f x = Inr (g x)) \<Longrightarrow> for_each f xs = Inr (map g xs)"
  by (induction xs) auto

lemma for_each_result:
  "for_each f xs = Inr ys \<Longrightarrow> length ys = length xs \<and> (\<forall>i<length xs. f (xs ! i) = Inr (ys ! i))"
proof (induction xs arbitrary: ys)
  case Nil
  then show ?case by simp
next
  case (Cons x xs)
  then show ?case
    by (auto split: sum.splits simp: nth_Cons split: nat.splits)
qed

lemma extract_bits_nth_01: "x < 16 \<Longrightarrow> extract_bits v ! x = 0 \<or> extract_bits v ! x = 1"
proof -
  have "\<forall>i<16. extract_bits v ! i = 0 \<or> extract_bits v ! i = 1"
    by (simp add: extract_bits_list less_Suc_eq eval_nat_numeral all_conj_distrib bit_of_def)
  then show "x < 16 \<Longrightarrow> extract_bits v ! x = 0 \<or> extract_bits v ! x = 1" by blast
qed

lemma plane_color_range: "0 \<le> plane_color planes x \<and> plane_color planes x \<le> 15"
proof (cases "x < 16")
  case True
  have b: "b0 = 0 \<or> b0 = 1 \<Longrightarrow> b1 = 0 \<or> b1 = 1 \<Longrightarrow> b2 = 0 \<or> b2 = 1 \<Longrightarrow> b3 = 0 \<or> b3 = 1 \<Longrightarrow>
      0 \<le> (b0 OR push_bit 1 b1 OR push_bit 2 b2 OR push_bit 3 b3)
      \<and> (b0 OR push_bit 1 b1 OR push_bit 2 b2 OR push_bit 3 b3) \<le> 15" for b0 b1 b2 b3 :: int
    by auto
  show ?thesis
    using True b [OF extract_bits_nth_01 [OF True] extract_bits_nth_01 [OF True]
        extract_bits_nth_01 [OF True] extract_bits_nth_01 [OF True]]
    by (simp add: plane_color_def)
next
  case False
  then show ?thesis by (simp add: plane_color_def)
qed

lemma pixel_color_planes:
  "length planes = 4 \<Longrightarrow> pixel_color (map extract_bits planes) x = Inr (plane_color planes x)"
  by (simp add: pixel_color_def plane_bit_def plane_color_def length_extract_bits)

lemma row_pixels_planes:
  "length planes = 4 \<Longrightarrow>
   for_each (pixel_color (map extract_bits planes)) [0..<n] = Inr (map (plane_color planes) [0..<n])"
  by (rule for_each_Inr) (simp add: pixel_color_planes)

lemma upt_4: "[0..<4] = [0, 1, 2, 3]"
  by (simp add: upt_rec eval_nat_numeral)

lemma plane_color_zero: "plane_color [0, 0, 0, 0] x = 0"
proof (cases "x < 16")
  case True
  have "\<forall>i<16. extract_bits 0 ! i = 0"
    by (simp add: extract_bits_list less_Suc_eq eval_nat_numeral all_conj_distrib bit_of_def)
  with True show ?thesis by (simp add: plane_color_def)
next
  case False
  then show ?thesis by (simp add: plane_color_def)
qed


lemma read_plane_Inr:
  "read_plane d i = Inr v \<Longrightarrow> i < length d \<and> py_int (d ! i) \<noteq> None \<and> v = word_at d i"
  by (auto simp: read_plane_def word_at_def split: if_splits option.splits)

lemma read_plane_numeric:
  "i < length d \<Longrightarrow> py_int (d ! i) \<noteq> None \<Longrightarrow> read_plane d i = Inr (word_at d i)"
  by (auto simp: read_plane_def word_at_def split: option.splits)

lemma read_plane_not_IndexError:
  "i < length d \<Longrightarrow> read_plane d i = Inl e \<Longrightarrow> e = ValueError"
  by (auto simp: read_plane_def split: option.splits)

lemma get_plane_values_short:
  "i + 4 > length d \<Longrightarrow> get_plane_values d i = Inr (True, [0, 0, 0, 0])"
  by (simp add: get_plane_values_def)

lemma get_plane_values_full:
  assumes "i + 4 \<le> length d" and "\<forall>p<4. py_int (d ! (i + p)) \<noteq> None"
  shows "get_plane_values d i = Inr (False, map (\<lambda>p. word_at d (i + p)) [0..<4])"
proof -
  have "for_each (\<lambda>p. read_plane d (i + p)) [0..<4] = Inr (map (\<lambda>p. word_at d (i + p)) [0..<4])"
    by (rule for_each_Inr) (use assms in \<open>simp add: read_plane_numeric\<close>)
  with assms show ?thesis by (simp add: get_plane_values_def)
qed

lemma get_plane_values_Inr:
  assumes "get_plane_values d i = Inr (s, pv)"
  shows "s = (i + 4 > length d) \<and> length pv = 4
       \<and> (s \<longrightarrow> pv = [0, 0, 0, 0])
       \<and> (\<not> s \<longrightarrow> (\<forall>p<4. py_int (d ! (i + p)) \<noteq> None) \<and> pv = map (\<lambda>p. word_at d (i + p)) [0..<4])"
proof (cases "i + 4 > length d")
  case True
  with assms show ?thesis by (auto simp: get_plane_values_def)
next
  case False
  with assms have fe: "for_each (\<lambda>p. read_plane d (i + p)) [0..<4] = Inr pv" and s: "\<not> s"
    by (auto simp: get_plane_values_def split: sum.splits)
  from for_each_result [OF fe] have len: "length pv = 4"
    and each: "\<forall>p<4. read_plane d (i + p) = Inr (pv ! p)" by auto
  from each have num: "\<forall>p<4. py_int (d ! (i + p)) \<noteq> None"
    and val: "\<forall>p<4. pv ! p = word_at d (i + p)"
    using read_plane_Inr by blast+
  have "pv = map (\<lambda>p. word_at d (i + p)) [0..<4]"
    by (rule nth_equalityI) (use len val in auto)
  with s False len num show ?thesis by simp
qed

lemma for_each_first_error:
  assumes "\<And>x e. x \<in> set xs \<Longrightarrow> f x = Inl e \<Longrightarrow> e = e0" and "\<exists>x\<in>set xs. \<exists>e. f x = Inl e"
  shows "for_each f xs = Inl e0"
  using assms
proof (induction xs)
  case Nil
  then show ?case by simp
next
  case (Cons x xs)
  show ?case
  proof (cases "f x")
    case (Inl e)
    with Cons.prems(1) [of x e] show ?thesis by simp
  next
    case (Inr y)
    with Cons.prems(2) have "\<exists>x\<in>set xs. \<exists>e. f x = Inl e" by auto
    with Cons.IH Cons.prems(1) have "for_each f xs = Inl e0" by auto
    with Inr show ?thesis by simp
  qed
qed

lemma get_plane_values_bad:
  assumes "i + 4 \<le> length d" and "p < 4" and "py_int (d ! (i + p)) = None"
  shows "get_plane_values d i = Inl ValueError"
proof -
  have "for_each (\<lambda>p. read_plane d (i + p)) [0..<4] = Inl ValueError"
  proof (rule for_each_first_error)
    fix x e assume "x \<in> set [0..<4]" and "read_plane d (i + x) = Inl e"
    with assms(1) have "i + x < length d" by simp
    then show "e = ValueError"
      using \<open>read_plane d (i + x) = Inl e\<close> by (rule read_plane_not_IndexError)
  next
    from assms have "read_plane d (i + p) = Inl ValueError" by (simp add: read_plane_def)
    with assms(2) show "\<exists>x\<in>set [0..<4]. \<exists>e. read_plane d (i + x) = Inl e" by auto
  qed
  with assms(1) show ?thesis by (simp add: get_plane_values_def)
qed

lemma get_plane_values_error:
  "get_plane_values d i = Inl e \<Longrightarrow> e = ValueError \<and> i + 4 \<le> length d \<and> (\<exists>p<4. py_int (d ! (i + p)) = None)"
proof -
  assume a: "get_plane_values d i = Inl e"
  then have full: "i + 4 \<le> length d" by (auto simp: get_plane_values_def split: if_splits)
  have ex: "\<exists>p<4. py_int (d ! (i + p)) = None"
  proof (rule ccontr)
    assume "\<not> ?thesis"
    then have "\<forall>p<4. py_int (d ! (i + p)) \<noteq> None" by simp
    from get_plane_values_full [OF full this] a show False by simp
  qed
  then obtain p where "p < 4" "py_int (d ! (i + p)) = None" by blast
  from get_plane_values_bad [OF full this] a full ex show ?thesis by simp
qed

text \<open>One step of the row loop, on the rows a, a+1, ...\<close>

lemma rows_loop_step:
  "rows_loop d w (4 * a) [a..<a + Suc n] =
     (case get_plane_values d (4 * a) of
        Inl e \<Rightarrow> Inl e
      | Inr (short, plane_values) \<Rightarrow>
          (case for_each (pixel_color (map extract_bits plane_values)) [0..<nat w] of
             Inl e \<Rightarrow> Inl e
           | Inr row_pixels \<Rightarrow>
               (case rows_loop d w (4 * Suc a) [Suc a..<Suc a + n] of
                  Inl e \<Rightarrow> Inl e
                | Inr (msgs, pixels) \<Rightarrow>
                    Inr ((if short then [Warning_not_enough_data a] else []) @ msgs,
                         row_pixels # pixels))))"
proof -
  have u: "[a..<a + Suc n] = a # [Suc a..<Suc a + n]" by (simp add: upt_conv_Cons)
  have e: "4 * Suc a = 4 * a + 4" by simp
  show ?thesis unfolding u e by (simp only: rows_loop.simps)
qed

lemma rows_loop_Inr:
  assumes "rows_loop d w (4 * a) [a..<a + n] = Inr (msgs, px)"
  shows "length px = n
       \<and> (\<forall>k<n. px ! k = map (plane_color (row_planes d (a + k))) [0..<nat w])
       \<and> (\<forall>k<n. \<not> row_short d (a + k) \<longrightarrow> (\<forall>p<4. py_int (d ! (4 * (a + k) + p)) \<noteq> None))
       \<and> msgs = map Warning_not_enough_data (filter (row_short d) [a..<a + n])"
  using assms
proof (induction n arbitrary: a msgs px)
  case 0
  then show ?case by simp
next
  case (Suc n)
  from Suc.prems obtain s pv where g: "get_plane_values d (4 * a) = Inr (s, pv)"
    by (auto simp only: rows_loop_step split: sum.splits prod.splits)
  from get_plane_values_Inr [OF g] have s: "s = row_short d a" and len: "length pv = 4"
    and pv: "pv = row_planes d a"
    and num: "\<not> row_short d a \<longrightarrow> (\<forall>p<4. py_int (d ! (4 * a + p)) \<noteq> None)"
    by (auto simp: row_short_def row_planes_def)
  from Suc.prems g row_pixels_planes [OF len, of "nat w"] obtain msgs' px'
    where rest: "rows_loop d w (4 * Suc a) [Suc a..<Suc a + n] = Inr (msgs', px')"
      and msgs: "msgs = (if s then [Warning_not_enough_data a] else []) @ msgs'"
      and px: "px = map (plane_color pv) [0..<nat w] # px'"
    by (auto simp only: rows_loop_step sum.case prod.case split: sum.splits prod.splits)
  from Suc.IH [OF rest] have ih1: "length px' = n"
    and ih2: "\<forall>k<n. px' ! k = map (plane_color (row_planes d (Suc a + k))) [0..<nat w]"
    and ih3: "\<forall>k<n. \<not> row_short d (Suc a + k) \<longrightarrow> (\<forall>p<4. py_int (d ! (4 * (Suc a + k) + p)) \<noteq> None)"
    and ih4: "msgs' = map Warning_not_enough_data (filter (row_short d) [Suc a..<Suc a + n])"
    by blast+
  have c1: "length px = Suc n" using px ih1 by simp
  have c2: "\<forall>k<Suc n. px ! k = map (plane_color (row_planes d (a + k))) [0..<nat w]"
  proof (intro allI impI)
    fix k assume "k < Suc n"
    show "px ! k = map (plane_color (row_planes d (a + k))) [0..<nat w]"
    proof (cases k)
      case 0
      with px pv show ?thesis by simp
    next
      case (Suc j)
      with \<open>k < Suc n\<close> ih2 px show ?thesis by simp
    qed
  qed
  have c3: "\<forall>k<Suc n. \<not> row_short d (a + k) \<longrightarrow> (\<forall>p<4. py_int (d ! (4 * (a + k) + p)) \<noteq> None)"
  proof -
    have "\<forall>p<4. py_int (d ! (4 * (a + k) + p)) \<noteq> None"
      if k: "k < Suc n" and ns: "\<not> row_short d (a + k)" for k
    proof (cases k)
      case 0
      with num ns show ?thesis by simp
    next
      case (Suc j)
      with k ns ih3 have "\<forall>p<4. py_int (d ! (4 * (Suc a + j) + p)) \<noteq> None" by simp
      with Suc show ?thesis by simp
    qed
    then show ?thesis by blast
  qed
  have "[a..<a + Suc n] = a # [Suc a..<Suc a + n]" by (simp add: upt_conv_Cons)
  then have c4: "msgs = map Warning_not_enough_data (filter (row_short d) [a..<a + Suc n])"
    using msgs ih4 s by simp
  from c1 c2 c3 c4 show ?case by blast
qed

lemma rows_loop_numeric:
  assumes "\<forall>k<n. \<not> row_short d (a + k) \<longrightarrow> (\<forall>p<4. py_int (d ! (4 * (a + k) + p)) \<noteq> None)"
  shows "\<exists>msgs px. rows_loop d w (4 * a) [a..<a + n] = Inr (msgs, px)"
  using assms
proof (induction n arbitrary: a)
  case 0
  then show ?case by simp
next
  case (Suc n)
  have "\<forall>k<n. \<not> row_short d (Suc a + k) \<longrightarrow> (\<forall>p<4. py_int (d ! (4 * (Suc a + k) + p)) \<noteq> None)"
  proof -
    have "\<forall>p<4. py_int (d ! (4 * (Suc a + k) + p)) \<noteq> None"
      if "k < n" and "\<not> row_short d (Suc a + k)" for k
      using Suc.prems [rule_format, of "Suc k"] that by simp
    then show ?thesis by blast
  qed
  from Suc.IH [OF this] obtain msgs px
    where rest: "rows_loop d w (4 * Suc a) [Suc a..<Suc a + n] = Inr (msgs, px)" by blast
  have "\<exists>s pv. get_plane_values d (4 * a) = Inr (s, pv) \<and> length pv = 4"
  proof (cases "row_short d a")
    case True
    then show ?thesis by (auto simp: get_plane_values_short row_short_def)
  next
    case False
    with Suc.prems [rule_format, of 0] have "\<forall>p<4. py_int (d ! (4 * a + p)) \<noteq> None" by simp
    with False show ?thesis by (auto simp: get_plane_values_full row_short_def)
  qed
  then obtain s pv where g: "get_plane_values d (4 * a) = Inr (s, pv)" and len: "length pv = 4"
    by blast
  show ?case
    by (simp only: rows_loop_step g rest row_pixels_planes [OF len] sum.case prod.case) blast
qed


lemma rows_loop_error:
  "rows_loop d w idx rows = Inl e \<Longrightarrow> e = ValueError"
proof (induction rows arbitrary: idx)
  case Nil
  then show ?case by simp
next
  case (Cons row rows)
  show ?case
  proof (cases "get_plane_values d idx")
    case (Inl e')
    with Cons.prems have "e' = e" by simp
    with Inl get_plane_values_error show ?thesis by blast
  next
    case (Inr spv)
    obtain s pv where spv: "spv = (s, pv)" by (cases spv)
    from get_plane_values_Inr [OF Inr [unfolded spv]] have len: "length pv = 4" by simp
    from Cons.prems Inr spv row_pixels_planes [OF len, of "nat w"]
    have "rows_loop d w (idx + 4) rows = Inl e"
      by (auto split: sum.splits)
    then show ?thesis by (rule Cons.IH)
  qed
qed

lemma rows_loop_bad:
  assumes "k < n" and "\<not> row_short d (a + k)" and "p < 4"
    and "py_int (d ! (4 * (a + k) + p)) = None"
  shows "rows_loop d w (4 * a) [a..<a + n] = Inl ValueError"
proof (cases "rows_loop d w (4 * a) [a..<a + n]")
  case (Inl e)
  with rows_loop_error show ?thesis by blast
next
  case (Inr r)
  obtain msgs px where "r = (msgs, px)" by (cases r)
  with Inr rows_loop_Inr [of d w a n msgs px]
  have "\<forall>k<n. \<not> row_short d (a + k) \<longrightarrow> (\<forall>p<4. py_int (d ! (4 * (a + k) + p)) \<noteq> None)"
    by blast
  with assms show ?thesis by blast
qed

text \<open>
  Claim C3. For a width and a height of at least 1 and a data sequence of numeric tokens of
  any length, the rasterizer returns a grid of exactly \<open>height\<close> rows of \<open>width\<close> columns.
  A row whose four words are not all present is a row of zeros, announced by one warning.
  An empty data sequence gives a grid of zeros. No call, on any data, ends in an
  \<^verbatim>\<open>IndexError\<close>: the data is never read past its end.
\<close>

theorem rasterizer_pads_short_rows:
  assumes "1 \<le> width" and "1 \<le> height" and "numeric_tokens data_values"
  shows "\<exists>msgs grid. parse_sprite_data data_values width height = Inr (msgs, grid)
       \<and> int (length grid) = height
       \<and> (\<forall>r<length grid. int (length (grid ! r)) = width
             \<and> (row_short data_values r \<longrightarrow> grid ! r = replicate (nat width) 0))
       \<and> msgs = map Warning_not_enough_data (filter (row_short data_values) [0..<nat height])
       \<and> (data_values = [] \<longrightarrow> grid = replicate (nat height) (replicate (nat width) 0))
       \<and> (\<forall>d w h. parse_sprite_data d w h \<noteq> Inl IndexError)"
proof -
  have num: "\<forall>i<length data_values. py_int (data_values ! i) \<noteq> None"
    using assms(3) by (simp add: numeric_tokens_def list_all_length)
  have "\<forall>k<nat height. \<not> row_short data_values (0 + k) \<longrightarrow>
          (\<forall>p<4. py_int (data_values ! (4 * (0 + k) + p)) \<noteq> None)"
    using num by (simp add: row_short_def)
  from rows_loop_numeric [OF this, of width] obtain msgs grid
    where run: "rows_loop data_values width (4 * 0) [0..<0 + nat height] = Inr (msgs, grid)"
    by blast
  from rows_loop_Inr [OF run] have len: "length grid = nat height"
    and rows: "\<forall>k<nat height. grid ! k = map (plane_color (row_planes data_values k)) [0..<nat width]"
    and msgs: "msgs = map Warning_not_enough_data (filter (row_short data_values) [0..<nat height])"
    by simp_all
  have res: "parse_sprite_data data_values width height = Inr (msgs, grid)"
    using run by (simp add: parse_sprite_data_def)
  have zero: "grid ! r = replicate (nat width) 0" if "r < nat height" "row_short data_values r" for r
  proof -
    from that rows have "grid ! r = map (plane_color [0, 0, 0, 0]) [0..<nat width]"
      by (simp add: row_planes_def)
    also have "\<dots> = replicate (nat width) 0"
      by (rule nth_equalityI) (simp_all add: plane_color_zero)
    finally show ?thesis .
  qed
  have each: "\<forall>r<length grid. int (length (grid ! r)) = width
             \<and> (row_short data_values r \<longrightarrow> grid ! r = replicate (nat width) 0)"
    using len rows zero assms(1) by simp
  have empty: "data_values = [] \<longrightarrow> grid = replicate (nat height) (replicate (nat width) 0)"
  proof
    assume "data_values = []"
    then have "\<forall>r<nat height. grid ! r = replicate (nat width) 0"
      using zero by (simp add: row_short_def)
    then show "grid = replicate (nat height) (replicate (nat width) 0)"
      using len by (intro nth_equalityI) simp_all
  qed
  have noidx: "\<forall>d w h. parse_sprite_data d w h \<noteq> Inl IndexError"
    using rows_loop_error by (fastforce simp: parse_sprite_data_def)
  from res len each msgs empty noidx assms(2) show ?thesis by simp
qed

theorem rasterizer_pads_short_rows_witness:
  "numeric_tokens [''-256'', ''1'', ''0'', ''65535'']
   \<and> (\<exists>msgs grid. parse_sprite_data [''-256'', ''1'', ''0'', ''65535''] 18 2 = Inr (msgs, grid)
        \<and> length grid = 2 \<and> grid ! 1 = replicate 18 0
        \<and> msgs = [Warning_not_enough_data 1])"
proof -
  have n: "numeric_tokens [''-256'', ''1'', ''0'', ''65535'']"
    by (simp add: numeric_tokens_def py_int_def strip_with_def is_int_space_def is_digit_def)
  have s: "row_short [''-256'', ''1'', ''0'', ''65535''] 1" by (simp add: row_short_def)
  have f: "filter (row_short [''-256'', ''1'', ''0'', ''65535'']) [0..<nat 2] = [1]"
    by (simp add: row_short_def upt_rec eval_nat_numeral)
  from rasterizer_pads_short_rows [of 18 2, OF _ _ n] s f n show ?thesis
    by fastforce
qed

lemma py_int_minus_one: "py_int ''-1'' = Some (- 1)"
  by (simp add: py_int_def strip_with_def is_int_space_def is_digit_def digit_val_def)

text \<open>
  Claim C4. Whenever the rasterizer returns a grid, row \<open>r\<close> is made from the four words at
  positions \<open>4 * r\<close> to \<open>4 * r + 3\<close> of the data as planes 0 to 3 (zeros when the row is
  short), and the pixel at column \<open>x\<close> is the bit of plane 0 at \<open>x\<close>, or-ed with the bits of
  planes 1, 2 and 3 shifted left by 1, 2 and 3, when \<open>x < 16\<close>, and 0 when \<open>x \<ge> 16\<close>. Every
  colour lies between 0 and 15. A 16 by 24 record with exactly 96 numeric data values
  gives 24 rows of 16 columns, with no warning.
\<close>

theorem rasterizer_pixel_colors:
  "(\<forall>msgs grid. parse_sprite_data d w h = Inr (msgs, grid) \<longrightarrow>
      length grid = nat h
      \<and> (\<forall>r<nat h.
            (\<not> row_short d r \<longrightarrow> (\<forall>p<4. py_int (d ! (4 * r + p)) \<noteq> None))
            \<and> length (grid ! r) = nat w
            \<and> (\<forall>x<nat w. grid ! r ! x = plane_color (row_planes d r) x
                  \<and> (16 \<le> x \<longrightarrow> grid ! r ! x = 0)
                  \<and> 0 \<le> grid ! r ! x \<and> grid ! r ! x \<le> 15)))
   \<and> (numeric_tokens d \<and> length d = 96 \<longrightarrow>
        (\<exists>grid. parse_sprite_data d 16 24 = Inr ([], grid) \<and> length grid = 24
           \<and> list_all (\<lambda>row. length row = 16 \<and> list_all (\<lambda>c. 0 \<le> c \<and> c \<le> 15) row) grid))"
proof -
  have part1: "length grid = nat h
      \<and> (\<forall>r<nat h.
            (\<not> row_short d r \<longrightarrow> (\<forall>p<4. py_int (d ! (4 * r + p)) \<noteq> None))
            \<and> length (grid ! r) = nat w
            \<and> (\<forall>x<nat w. grid ! r ! x = plane_color (row_planes d r) x
                  \<and> (16 \<le> x \<longrightarrow> grid ! r ! x = 0)
                  \<and> 0 \<le> grid ! r ! x \<and> grid ! r ! x \<le> 15))"
    if "parse_sprite_data d w h = Inr (msgs, grid)" for msgs grid
  proof -
    from that have run: "rows_loop d w (4 * 0) [0..<0 + nat h] = Inr (msgs, grid)"
      by (simp add: parse_sprite_data_def)
    from rows_loop_Inr [OF run] have len: "length grid = nat h"
      and rows: "\<forall>k<nat h. grid ! k = map (plane_color (row_planes d k)) [0..<nat w]"
      and num: "\<forall>k<nat h. \<not> row_short d k \<longrightarrow> (\<forall>p<4. py_int (d ! (4 * k + p)) \<noteq> None)"
      by simp_all
    have far: "16 \<le> x \<Longrightarrow> plane_color pl x = 0" for pl x
      by (simp add: plane_color_def)
    show ?thesis
      using len rows num plane_color_range far by simp
  qed
  have part2: "\<exists>grid. parse_sprite_data d 16 24 = Inr ([], grid) \<and> length grid = 24
           \<and> list_all (\<lambda>row. length row = 16 \<and> list_all (\<lambda>c. 0 \<le> c \<and> c \<le> 15) row) grid"
    if a: "numeric_tokens d \<and> length d = 96"
  proof -
    from a have "\<forall>i<length d. py_int (d ! i) \<noteq> None"
      by (simp add: numeric_tokens_def list_all_length)
    then have "\<forall>k<24. \<not> row_short d (0 + k) \<longrightarrow> (\<forall>p<4. py_int (d ! (4 * (0 + k) + p)) \<noteq> None)"
      by (simp add: row_short_def)
    from rows_loop_numeric [OF this, of 16] obtain msgs grid
      where run: "rows_loop d 16 (4 * 0) [0..<0 + 24] = Inr (msgs, grid)" by blast
    from rows_loop_Inr [OF run] have len: "length grid = 24"
      and rows: "\<forall>k<24. grid ! k = map (plane_color (row_planes d k)) [0..<nat 16]"
      and msgs: "msgs = map Warning_not_enough_data (filter (row_short d) [0..<24])"
      by simp_all
    from a have "filter (row_short d) [0..<24] = []"
      by (simp add: row_short_def filter_empty_conv)
    with msgs have m: "msgs = []" by simp
    have res: "parse_sprite_data d 16 24 = Inr ([], grid)"
      using run m by (simp add: parse_sprite_data_def)
    have "list_all (\<lambda>row. length row = 16 \<and> list_all (\<lambda>c. 0 \<le> c \<and> c \<le> 15) row) grid"
      using len rows plane_color_range by (simp add: list_all_length)
    with res len show ?thesis by blast
  qed
  from part1 part2 show ?thesis by blast
qed

theorem rasterizer_pixel_colors_witness:
  "numeric_tokens (replicate 96 ''-1'') \<and> length (replicate 96 ''-1'') = 96
   \<and> (\<exists>grid. parse_sprite_data (replicate 96 ''-1'') 16 24 = Inr ([], grid) \<and> length grid = 24
        \<and> grid ! 0 ! 0 = 15)"
proof -
  have n: "numeric_tokens (replicate 96 ''-1'')"
    by (simp add: numeric_tokens_def list_all_iff py_int_minus_one)
  have c: "plane_color (row_planes (replicate 96 ''-1'') 0) 0 = 15"
    by (simp add: plane_color_def row_planes_def row_short_def word_at_def py_int_minus_one upt_rec
        eval_nat_numeral signed_to_unsigned_16_def extract_bits_list bit_of_def)
  from rasterizer_pixel_colors [of "replicate 96 ''-1''" 16 24] n
  obtain grid where g: "parse_sprite_data (replicate 96 ''-1'') 16 24 = Inr ([], grid)"
    and l: "length grid = 24" by auto
  from rasterizer_pixel_colors [of "replicate 96 ''-1''" 16 24] g
  have "grid ! 0 ! 0 = plane_color (row_planes (replicate 96 ''-1'') 0) 0" by simp
  with c g l n show ?thesis by simp
qed

section \<open>Record tokenizer: properties\<close>

lemma split_unquoted_nonempty: "split_unquoted q cs \<noteq> []"
  by (induction cs arbitrary: q) (auto split: list.splits)

lemma tokenize_loop_split:
  "tokenize_loop parts q cur cs =
     parts @ map py_strip
       (case split_unquoted q cs of
          [] \<Rightarrow> []
        | p # ps \<Rightarrow> (if last ((cur @ p) # ps) = [] then butlast ((cur @ p) # ps) else (cur @ p) # ps))"
proof (induction cs arbitrary: parts q cur)
  case Nil
  then show ?case by simp
next
  case (Cons c cs)
  show ?case
  proof (cases "c = CHR '','' \<and> \<not> q")
    case True
    obtain p ps where sp: "split_unquoted q cs = p # ps"
      using split_unquoted_nonempty [of q cs] by (cases "split_unquoted q cs") auto
    from True have "tokenize_loop parts q cur (c # cs) = tokenize_loop (parts @ [py_strip cur]) q [] cs"
      by simp
    also have "\<dots> = (parts @ [py_strip cur]) @ map py_strip
        (if last (p # ps) = [] then butlast (p # ps) else p # ps)"
      by (simp add: Cons.IH sp)
    finally show ?thesis using True sp by simp
  next
    case False
    let ?q = "if c = CHR 0x22 then \<not> q else q"
    obtain p ps where sp: "split_unquoted ?q cs = p # ps"
      using split_unquoted_nonempty [of ?q cs] by (cases "split_unquoted ?q cs") auto
    from False sp have sq: "split_unquoted q (c # cs) = (c # p) # ps" by auto
    from False have "tokenize_loop parts q cur (c # cs) = tokenize_loop parts ?q (cur @ [c]) cs"
      by auto
    also have "\<dots> = parts @ map py_strip
        (if last (((cur @ [c]) @ p) # ps) = [] then butlast (((cur @ [c]) @ p) # ps)
         else ((cur @ [c]) @ p) # ps)"
      by (simp only: Cons.IH sp list.case)
    also have "\<dots> = parts @ map py_strip
        (case split_unquoted q (c # cs) of
           [] \<Rightarrow> []
         | p # ps \<Rightarrow> (if last ((cur @ p) # ps) = [] then butlast ((cur @ p) # ps) else (cur @ p) # ps))"
      unfolding sq by simp
    finally show ?thesis .
  qed
qed

lemma tokenize_refines: "tokenize line = tokenize_spec line"
proof -
  obtain p ps where sp: "split_unquoted False line = p # ps"
    using split_unquoted_nonempty [of False line] by (cases "split_unquoted False line") auto
  show ?thesis
    by (simp add: tokenize_def tokenize_spec_def tokenize_loop_split sp)
qed

lemma py_join_Cons:
  "ps \<noteq> [] \<Longrightarrow> py_join sep (p # ps) = p @ sep # py_join sep ps"
  by (cases ps) auto

lemma py_join_Cons_char:
  "py_join sep ((c # p) # ps) = c # py_join sep (p # ps)"
  by (cases ps) auto

lemma join_split_unquoted: "py_join CHR '','' (split_unquoted q cs) = cs"
proof (induction cs arbitrary: q)
  case Nil
  then show ?case by simp
next
  case (Cons c cs)
  show ?case
  proof (cases "c = CHR '','' \<and> \<not> q")
    case True
    then show ?thesis
      using Cons.IH [of q] split_unquoted_nonempty [of q cs] by (simp add: py_join_Cons)
  next
    case False
    let ?q = "if c = CHR 0x22 then \<not> q else q"
    obtain p ps where sp: "split_unquoted ?q cs = p # ps"
      using split_unquoted_nonempty [of ?q cs] by (cases "split_unquoted ?q cs") auto
    from False sp have "split_unquoted q (c # cs) = (c # p) # ps" by auto
    then show ?thesis using Cons.IH [of ?q] sp by (simp add: py_join_Cons_char)
  qed
qed

lemma count_split_unquoted:
  "length (split_unquoted q cs) =
     Suc (length (filter (\<lambda>i. cs ! i = CHR '','' \<and> (even (length (filter (\<lambda>c. c = CHR 0x22) (take i cs))) \<noteq> q))
            [0..<length cs]))"
proof (induction cs arbitrary: q)
  case Nil
  then show ?case by simp
next
  case (Cons c cs)
  let ?P = "\<lambda>q cs i. cs ! i = CHR '','' \<and> (even (length (filter (\<lambda>c. c = CHR 0x22) (take i cs))) \<noteq> q)"
  let ?q = "if c = CHR 0x22 then \<not> q else q"
  have shift: "?P q (c # cs) (Suc i) = ?P ?q cs i" for i by auto
  have upt: "[0..<length (c # cs)] = 0 # map Suc [0..<length cs]"
    by (simp add: upt_conv_Cons map_Suc_upt del: upt_Suc)
  have "length (filter (?P q (c # cs)) [0..<length (c # cs)]) =
      (if ?P q (c # cs) 0 then 1 else 0) + length (filter (?P ?q cs) [0..<length cs])"
    unfolding upt by (simp add: filter_map o_def shift del: upt_Suc)
  moreover have "?P q (c # cs) 0 = (c = CHR '','' \<and> \<not> q)" by simp
  moreover have "length (split_unquoted q (c # cs)) =
      (if c = CHR '','' \<and> \<not> q then 1 else 0) + length (split_unquoted ?q cs)"
    using split_unquoted_nonempty [of ?q cs] by (auto split: list.splits)
  ultimately show ?case using Cons.IH [of ?q] by simp
qed

text \<open>
  Claim C5. The tokenizer is one pass from left to right over the line. Its result is the
  line cut at exactly the commas that have an even number of quote characters before them,
  every piece stripped of surrounding whitespace, without the last piece when that piece is
  empty before stripping. The pieces joined by commas are the line again, so the quote
  characters stay in the fields. The function is total: a line with an odd number of
  quotes is tokenized like any other.
\<close>

theorem tokenizer_one_pass:
  \<open>tokenize line = tokenize_spec line
   \<and> py_join CHR '','' (split_unquoted False line) = line
   \<and> length (split_unquoted False line) = Suc (length (split_points line))
   \<and> tokenize ''1, "a,b" ,16,"x'' = [''1'', ''"a,b"'', ''16'', ''"x'']
   \<and> tokenize ''1,2, '' = [''1'', ''2'', '''']
   \<and> tokenize ''1,2,'' = [''1'', ''2'']\<close>
proof -
  have a: \<open>tokenize ''1, "a,b" ,16,"x'' = [''1'', ''"a,b"'', ''16'', ''"x'']\<close>
    by (simp add: tokenize_def py_strip_def strip_with_def is_space_def)
  have b: \<open>tokenize ''1,2, '' = [''1'', ''2'', '''']\<close>
    by (simp add: tokenize_def py_strip_def strip_with_def is_space_def)
  have c: \<open>tokenize ''1,2,'' = [''1'', ''2'']\<close>
    by (simp add: tokenize_def py_strip_def strip_with_def is_space_def)
  have d: "length (split_unquoted False line) = Suc (length (split_points line))"
    by (simp add: count_split_unquoted split_points_def)
  from a b c d tokenize_refines join_split_unquoted show ?thesis by simp
qed

section \<open>Library parser: properties\<close>

lemma py_split_nonempty: "py_split sep s \<noteq> []"
  by (induction s) (auto split: list.splits)

lemma parse_lines_append:
  "parse_lines n (ls @ ls') =
     (fst (parse_lines n ls) @ fst (parse_lines (n + length ls) ls'),
      snd (parse_lines n ls) @ snd (parse_lines (n + length ls) ls'))"
proof (induction ls arbitrary: n)
  case Nil
  then show ?case by simp
next
  case (Cons l ls)
  show ?case
    by (cases "parse_record_line l") (simp_all add: Cons.IH split: prod.splits)
qed

lemma parse_record_line_skip:
  assumes "py_strip line \<noteq> []"
  shows "length (tokenize line) < 5 \<Longrightarrow> parse_record_line line = Too_few_parts"
    and "5 \<le> length (tokenize line) \<Longrightarrow>
         py_int (tokenize line ! 0) = None \<or> py_int (tokenize line ! 2) = None
           \<or> py_int (tokenize line ! 3) = None \<Longrightarrow>
         parse_record_line line = Parse_error"
  using assms by (auto simp: parse_record_line_def Let_def split: option.splits)

lemma parse_lbr_file_header:
  assumes "split_lines content = header # rest"
  shows "parse_lbr_file content =
     (case parse_header header of
        Inl e \<Rightarrow> Inl e
      | Inr (name, sprite_count) \<Rightarrow>
          Inr \<lparr>library_name = name, sprites = fst (parse_lines 2 rest),
               printed = [Library_line name, Sprite_count_line sprite_count, Empty_line]
                           @ snd (parse_lines 2 rest)\<rparr>)"
  using assms by (simp add: parse_lbr_file_def split: sum.splits prod.splits)


lemma parse_header_cases:
  "parse_header header =
     (if length (py_split CHR '','' header) < 2 then Inl IndexError
      else (case py_int (py_split CHR '','' header ! 1) of
              None \<Rightarrow> Inl ValueError
            | Some n \<Rightarrow> Inr (strip_quotes (py_split CHR '','' header ! 0), n)))"
proof (cases "py_split CHR '','' header")
  case Nil
  then show ?thesis by (simp add: py_split_nonempty)
next
  case (Cons h0 tl)
  then show ?thesis by (cases tl) (auto simp: parse_header_def split: option.splits)
qed

lemma sprites_of_lines:
  "fst (parse_lines n ls) =
     concat (map (\<lambda>l. case parse_record_line l of Parsed s \<Rightarrow> [s] | _ \<Rightarrow> []) ls)"
proof (induction ls arbitrary: n)
  case Nil
  then show ?case by simp
next
  case (Cons l ls)
  obtain a b where pl: "parse_lines (Suc n) ls = (a, b)" by (cases "parse_lines (Suc n) ls")
  with Cons.IH [of "Suc n"]
  have "a = concat (map (\<lambda>l. case parse_record_line l of Parsed s \<Rightarrow> [s] | _ \<Rightarrow> []) ls)"
    by simp
  then show ?case
    by (cases "parse_record_line l") (simp_all add: pl)
qed

text \<open>
  Claim C6. A record line that is not blank and tokenizes to fewer than 5 fields, or whose
  index, width or height field is no integer, adds no sprite and one message
  (\<open>Skipping_invalid_line\<close> or \<open>Error_parsing_line\<close> with its line number); the lines after
  it are parsed as if it were absent. Once the header is read, the parse of the library
  returns whatever the record lines are. The document with header \<open>"TestLib",2\<close>, one
  well-formed record and one record of 3 fields gives the library name \<open>TestLib\<close>, one
  sprite and one message.
\<close>

theorem bad_record_lines_are_skipped:
  \<open>(py_strip line \<noteq> [] \<and> length (tokenize line) < 5 \<longrightarrow>
      parse_lines n (line # rest) =
        (fst (parse_lines (Suc n) rest), Skipping_invalid_line n # snd (parse_lines (Suc n) rest)))
   \<and> (py_strip line \<noteq> [] \<and> 5 \<le> length (tokenize line)
        \<and> (py_int (tokenize line ! 0) = None \<or> py_int (tokenize line ! 2) = None
             \<or> py_int (tokenize line ! 3) = None) \<longrightarrow>
      parse_lines n (line # rest) =
        (fst (parse_lines (Suc n) rest), Error_parsing_line n # snd (parse_lines (Suc n) rest)))
   \<and> (parse_record_line line = Too_few_parts \<or> parse_record_line line = Parse_error \<longrightarrow>
        fst (parse_lines n (before @ line # rest)) = fst (parse_lines n (before @ rest)))
   \<and> (split_lines content = header # lines \<and> parse_header header = Inr (name, sprite_count) \<longrightarrow>
        parse_lbr_file content =
          Inr \<lparr>library_name = name, sprites = fst (parse_lines 2 lines),
               printed = [Library_line name, Sprite_count_line sprite_count, Empty_line]
                           @ snd (parse_lines 2 lines)\<rparr>)
   \<and> parse_lbr_file ''"TestLib",2\<newline>0,"A",16,1,1,2,3,4,0,0\<newline>1,"B",16'' =
       Inr \<lparr>library_name = ''TestLib'',
            sprites = [\<lparr>sprite_index = 0, sprite_name = ''A'', sprite_width = 16,
                        sprite_height = 1, sprite_data = [''1'', ''2'', ''3'', ''4'']\<rparr>],
            printed = [Library_line ''TestLib'', Sprite_count_line 2, Empty_line,
                       Skipping_invalid_line 3]\<rparr>\<close>
proof -
  have a: "parse_lines n (line # rest) =
        (fst (parse_lines (Suc n) rest), Skipping_invalid_line n # snd (parse_lines (Suc n) rest))"
    if "py_strip line \<noteq> []" "length (tokenize line) < 5"
    using parse_record_line_skip(1) [OF that] by (simp split: prod.splits)
  have b: "parse_lines n (line # rest) =
        (fst (parse_lines (Suc n) rest), Error_parsing_line n # snd (parse_lines (Suc n) rest))"
    if "py_strip line \<noteq> []" "5 \<le> length (tokenize line)"
      "py_int (tokenize line ! 0) = None \<or> py_int (tokenize line ! 2) = None
             \<or> py_int (tokenize line ! 3) = None"
    using parse_record_line_skip(2) [OF that] by (simp split: prod.splits)
  have c: "fst (parse_lines n (before @ line # rest)) = fst (parse_lines n (before @ rest))"
    if "parse_record_line line = Too_few_parts \<or> parse_record_line line = Parse_error"
    using that by (auto simp: sprites_of_lines)
  have d: "parse_lbr_file content =
          Inr \<lparr>library_name = name, sprites = fst (parse_lines 2 lines),
               printed = [Library_line name, Sprite_count_line sprite_count, Empty_line]
                           @ snd (parse_lines 2 lines)\<rparr>"
    if "split_lines content = header # lines" "parse_header header = Inr (name, sprite_count)"
    using that by (simp add: parse_lbr_file_header)
  have e: \<open>parse_lbr_file ''"TestLib",2\<newline>0,"A",16,1,1,2,3,4,0,0\<newline>1,"B",16'' =
       Inr \<lparr>library_name = ''TestLib'',
            sprites = [\<lparr>sprite_index = 0, sprite_name = ''A'', sprite_width = 16,
                        sprite_height = 1, sprite_data = [''1'', ''2'', ''3'', ''4'']\<rparr>],
            printed = [Library_line ''TestLib'', Sprite_count_line 2, Empty_line,
                       Skipping_invalid_line 3]\<rparr>\<close>
    by code_simp
  from a b c d e show ?thesis by blast
qed

theorem bad_record_lines_are_skipped_witness:
  \<open>parse_lines 3 [''1,"B",16''] = ([], [Skipping_invalid_line 3])
   \<and> parse_lines 3 [''x,"B",16,1,5''] = ([], [Error_parsing_line 3])
   \<and> fst (parse_lines 2 [''0,"A",16,1,1,2,3,4'', ''1,"B",16'', ''2,"C",16,1,5,6,7,8'']) =
       fst (parse_lines 2 [''0,"A",16,1,1,2,3,4'', ''2,"C",16,1,5,6,7,8''])\<close>
proof -
  have s1: \<open>py_strip ''1,"B",16'' \<noteq> [] \<and> length (tokenize ''1,"B",16'') < 5\<close>
    by code_simp
  have s2: \<open>py_strip ''x,"B",16,1,5'' \<noteq> [] \<and> 5 \<le> length (tokenize ''x,"B",16,1,5'')
      \<and> py_int (tokenize ''x,"B",16,1,5'' ! 0) = None\<close>
    by code_simp
  have s3: \<open>parse_record_line ''1,"B",16'' = Too_few_parts\<close>
    by code_simp
  from bad_record_lines_are_skipped [of \<open>''1,"B",16''\<close> 3 "[]"] s1
  have r1: \<open>parse_lines 3 [''1,"B",16''] = ([], [Skipping_invalid_line 3])\<close> by simp
  from bad_record_lines_are_skipped [of \<open>''x,"B",16,1,5''\<close> 3 "[]"] s2
  have r2: \<open>parse_lines 3 [''x,"B",16,1,5''] = ([], [Error_parsing_line 3])\<close> by simp
  from bad_record_lines_are_skipped [of \<open>''1,"B",16''\<close> 2 \<open>[''2,"C",16,1,5,6,7,8'']\<close>
      \<open>[''0,"A",16,1,1,2,3,4'']\<close>] s3
  have r3: \<open>fst (parse_lines 2 [''0,"A",16,1,1,2,3,4'', ''1,"B",16'', ''2,"C",16,1,5,6,7,8'']) =
       fst (parse_lines 2 [''0,"A",16,1,1,2,3,4'', ''2,"C",16,1,5,6,7,8''])\<close>
    by simp
  from r1 r2 r3 show ?thesis by simp
qed

text \<open>
  Claim C7. Every document has a header line. When it has fewer than 2 fields between
  commas the parse ends in \<^verbatim>\<open>IndexError\<close>; when its second field is no integer the parse
  ends in \<^verbatim>\<open>ValueError\<close>; no sprite list is returned in either case. Otherwise the parse
  returns, the library name is field 0 without its surrounding quotes, and the sprite
  count printed is field 1 as an integer.
\<close>

theorem header_errors_are_fatal:
  "(\<exists>header rest. split_lines content = header # rest)
   \<and> (\<forall>header rest. split_lines content = header # rest \<longrightarrow>
        (length (py_split CHR '','' header) < 2 \<longrightarrow> parse_lbr_file content = Inl IndexError)
        \<and> (2 \<le> length (py_split CHR '','' header) \<and> py_int (py_split CHR '','' header ! 1) = None
             \<longrightarrow> parse_lbr_file content = Inl ValueError)
        \<and> (\<forall>n. 2 \<le> length (py_split CHR '','' header)
                 \<and> py_int (py_split CHR '','' header ! 1) = Some n \<longrightarrow>
              (\<exists>lib. parse_lbr_file content = Inr lib
                 \<and> library_name lib = strip_quotes (py_split CHR '','' header ! 0)
                 \<and> printed lib ! 1 = Sprite_count_line n)))"
proof -
  have ex: "\<exists>header rest. split_lines content = header # rest"
    using py_split_nonempty [of "CHR 0x0A" "py_strip content"]
    by (cases "split_lines content") (auto simp: split_lines_def)
  have rest: "(length (py_split CHR '','' header) < 2 \<longrightarrow> parse_lbr_file content = Inl IndexError)
        \<and> (2 \<le> length (py_split CHR '','' header) \<and> py_int (py_split CHR '','' header ! 1) = None
             \<longrightarrow> parse_lbr_file content = Inl ValueError)
        \<and> (\<forall>n. 2 \<le> length (py_split CHR '','' header)
                 \<and> py_int (py_split CHR '','' header ! 1) = Some n \<longrightarrow>
              (\<exists>lib. parse_lbr_file content = Inr lib
                 \<and> library_name lib = strip_quotes (py_split CHR '','' header ! 0)
                 \<and> printed lib ! 1 = Sprite_count_line n))"
    if "split_lines content = header # rest" for header rest
    by (simp add: parse_lbr_file_header [OF that] parse_header_cases)
  from ex rest show ?thesis by blast
qed

theorem header_errors_are_fatal_witness:
  \<open>parse_lbr_file ''abc'' = Inl IndexError
   \<and> parse_lbr_file ''"T",x\<newline>0,"A",16,1,1,2,3,4'' = Inl ValueError
   \<and> (\<exists>lib. parse_lbr_file ''""T"", 2 '' = Inr lib \<and> library_name lib = ''T''
         \<and> printed lib ! 1 = Sprite_count_line 2)\<close>
proof -
  have l1: \<open>split_lines ''abc'' = [''abc''] \<and> length (py_split CHR '','' ''abc'') < 2\<close>
    by code_simp
  have l2: \<open>split_lines ''"T",x\<newline>0,"A",16,1,1,2,3,4'' = [''"T",x'', ''0,"A",16,1,1,2,3,4'']
      \<and> 2 \<le> length (py_split CHR '','' ''"T",x'') \<and> py_int (py_split CHR '','' ''"T",x'' ! 1) = None\<close>
    by code_simp
  have l3: \<open>split_lines ''""T"", 2 '' = [''""T"", 2'']
      \<and> 2 \<le> length (py_split CHR '','' ''""T"", 2'')
      \<and> py_int (py_split CHR '','' ''""T"", 2'' ! 1) = Some 2
      \<and> strip_quotes (py_split CHR '','' ''""T"", 2'' ! 0) = ''T''\<close>
    by code_simp
  from header_errors_are_fatal [of \<open>''abc''\<close>] l1
  have r1: \<open>parse_lbr_file ''abc'' = Inl IndexError\<close> by simp
  from header_errors_are_fatal [of \<open>''"T",x\<newline>0,"A",16,1,1,2,3,4''\<close>] l2
  have r2: \<open>parse_lbr_file ''"T",x\<newline>0,"A",16,1,1,2,3,4'' = Inl ValueError\<close> by simp
  from header_errors_are_fatal [of \<open>''""T"", 2 ''\<close>] l3
  have r3: \<open>\<exists>lib. parse_lbr_file ''""T"", 2 '' = Inr lib \<and> library_name lib = ''T''
         \<and> printed lib ! 1 = Sprite_count_line 2\<close> by simp
  from r1 r2 r3 show ?thesis by simp
qed

lemma parse_record_line_Parsed:
  assumes "py_strip line \<noteq> []" and "5 \<le> length (tokenize line)"
    and "py_int (tokenize line ! 0) = Some i" and "py_int (tokenize line ! 2) = Some w"
    and "py_int (tokenize line ! 3) = Some h"
  shows "parse_record_line line =
     Parsed \<lparr>sprite_index = i, sprite_name = strip_quotes (tokenize line ! 1),
             sprite_width = w, sprite_height = h,
             sprite_data = trim_data w h (drop 4 (tokenize line))\<rparr>"
  using assms by (simp add: parse_record_line_def Let_def)

lemma parse_record_line_data:
  "parse_record_line line = Parsed s \<Longrightarrow>
     sprite_data s = trim_data (sprite_width s) (sprite_height s) (drop 4 (tokenize line))"
  by (auto simp: parse_record_line_def Let_def split: if_splits option.splits)

text \<open>
  Claim C10. The parser never converts the data tokens: a line that is not blank, has at
  least 5 fields and an integer index, width and height is put into the sprite list with
  its data tokens as they are (cut to the expected length), whatever they contain.
  Rasterizing data with a token that is no integer ends in \<^verbatim>\<open>ValueError\<close> whenever that
  token lies in a row below the height whose four words are all present; the row is
  neither skipped nor filled with zeros.
\<close>

theorem data_tokens_are_not_validated:
  \<open>(py_strip line \<noteq> [] \<and> 5 \<le> length (tokenize line) \<and> py_int (tokenize line ! 0) = Some i
      \<and> py_int (tokenize line ! 2) = Some w \<and> py_int (tokenize line ! 3) = Some h \<longrightarrow>
      fst (parse_lines n (line # rest)) =
        \<lparr>sprite_index = i, sprite_name = strip_quotes (tokenize line ! 1),
          sprite_width = w, sprite_height = h,
          sprite_data = trim_data w h (drop 4 (tokenize line))\<rparr> # fst (parse_lines (Suc n) rest))
   \<and> (j < length d \<and> py_int (d ! j) = None \<and> j div 4 < nat h \<and> \<not> row_short d (j div 4) \<longrightarrow>
        parse_sprite_data d w h = Inl ValueError)
   \<and> fst (parse_lines 2 [''0,"A",16,1,1,x,3,4,0,0'']) =
        [\<lparr>sprite_index = 0, sprite_name = ''A'', sprite_width = 16, sprite_height = 1,
           sprite_data = [''1'', ''x'', ''3'', ''4'']\<rparr>]
   \<and> parse_sprite_data [''1'', ''x'', ''3'', ''4''] 16 1 = Inl ValueError\<close>
proof -
  have a: "fst (parse_lines n (line # rest)) =
        \<lparr>sprite_index = i, sprite_name = strip_quotes (tokenize line ! 1),
          sprite_width = w, sprite_height = h,
          sprite_data = trim_data w h (drop 4 (tokenize line))\<rparr> # fst (parse_lines (Suc n) rest)"
    if "py_strip line \<noteq> []" "5 \<le> length (tokenize line)" "py_int (tokenize line ! 0) = Some i"
      "py_int (tokenize line ! 2) = Some w" "py_int (tokenize line ! 3) = Some h"
    using parse_record_line_Parsed [OF that] by (simp split: prod.splits)
  have b: "parse_sprite_data d w h = Inl ValueError"
    if "j < length d" "py_int (d ! j) = None" "j div 4 < nat h" "\<not> row_short d (j div 4)"
  proof -
    have "4 * (0 + j div 4) + j mod 4 = j" by simp
    with that(2) have bad: "py_int (d ! (4 * (0 + j div 4) + j mod 4)) = None" by simp
    have "rows_loop d w (4 * 0) [0..<0 + nat h] = Inl ValueError"
      by (rule rows_loop_bad [OF that(3) _ _ bad]) (use that(4) in simp_all)
    then show ?thesis by (simp add: parse_sprite_data_def)
  qed
  have c: \<open>fst (parse_lines 2 [''0,"A",16,1,1,x,3,4,0,0'']) =
        [\<lparr>sprite_index = 0, sprite_name = ''A'', sprite_width = 16, sprite_height = 1,
           sprite_data = [''1'', ''x'', ''3'', ''4'']\<rparr>]\<close>
    by code_simp
  have e: "parse_sprite_data [''1'', ''x'', ''3'', ''4''] 16 1 = Inl ValueError"
    by code_simp
  from a b c e show ?thesis by blast
qed

theorem data_tokens_are_not_validated_witness:
  \<open>fst (parse_lines 2 [''0,"A",16,1,1,x,3,4,0,0'']) =
      [\<lparr>sprite_index = 0, sprite_name = ''A'', sprite_width = 16, sprite_height = 1,
         sprite_data = [''1'', ''x'', ''3'', ''4'']\<rparr>]
   \<and> py_int ([''1'', ''x'', ''3'', ''4''] ! 1) = None
   \<and> parse_sprite_data [''1'', ''x'', ''3'', ''4''] 16 1 = Inl ValueError\<close>
proof -
  have h1: \<open>py_strip ''0,"A",16,1,1,x,3,4,0,0'' \<noteq> [] \<and> 5 \<le> length (tokenize ''0,"A",16,1,1,x,3,4,0,0'')
      \<and> py_int (tokenize ''0,"A",16,1,1,x,3,4,0,0'' ! 0) = Some 0
      \<and> py_int (tokenize ''0,"A",16,1,1,x,3,4,0,0'' ! 2) = Some 16
      \<and> py_int (tokenize ''0,"A",16,1,1,x,3,4,0,0'' ! 3) = Some 1\<close>
    by code_simp
  have h2: "(1::nat) < length [''1'', ''x'', ''3'', ''4''] \<and> py_int ([''1'', ''x'', ''3'', ''4''] ! 1) = None
      \<and> (1::nat) div 4 < nat 1 \<and> \<not> row_short [''1'', ''x'', ''3'', ''4''] (1 div 4)"
    by code_simp
  have v: \<open>strip_quotes (tokenize ''0,"A",16,1,1,x,3,4,0,0'' ! 1) = ''A''
      \<and> trim_data 16 1 (drop 4 (tokenize ''0,"A",16,1,1,x,3,4,0,0'')) = [''1'', ''x'', ''3'', ''4'']\<close>
    by code_simp
  from data_tokens_are_not_validated [of \<open>''0,"A",16,1,1,x,3,4,0,0''\<close> 0 16 1 2 "[]" 1
      "[''1'', ''x'', ''3'', ''4'']"] h1 h2 v
  show ?thesis by simp
qed

text \<open>
  Claim C1, as stated, fails: the parser has no case for a width that is not a multiple
  of 16. A record of width 35 and height 1 keeps 8 data tokens, more than \<open>4 * height\<close>.
\<close>

theorem expected_data_not_width_mod_16_counterexample:
  \<open>(35::int) mod 16 \<noteq> 0
   \<and> parse_record_line ''0,"A",35,1,-256,255,0,-1,240,15,-16,4080,0,0'' =
       Parsed \<lparr>sprite_index = 0, sprite_name = ''A'', sprite_width = 35, sprite_height = 1,
               sprite_data = [''-256'', ''255'', ''0'', ''-1'', ''240'', ''15'', ''-16'', ''4080'']\<rparr>
   \<and> expected_data 35 1 = 8
   \<and> \<not> int (length [''-256'', ''255'', ''0'', ''-1'', ''240'', ''15'', ''-16'', ''4080'']) \<le> 4 * 1\<close>
  by code_simp

lemma expected_data_pos:
  assumes "1 \<le> w" and "0 \<le> h"
  shows "expected_data w h = max 1 (w div 16) * 4 * h"
proof (cases "w < 16")
  case True
  with assms have "w div 16 = 0" by simp
  then show ?thesis by (simp add: expected_data_def)
next
  case False
  then have "1 \<le> w div 16" by simp
  then show ?thesis by (auto simp: expected_data_def Let_def max_def)
qed

text \<open>
  Claim C1, amended. The expected data length is \<open>(width div 16) * 4 * height\<close>, and
  \<open>4 * height\<close> only when that product is 0. Data longer than a non-negative expected
  length is cut to its first tokens of that number, and data that is not longer is kept
  unchanged. For a width of at least 1 and a height of at least 0 the expected length is
  \<open>max 1 (width div 16) * 4 * height\<close>, and the data kept is never longer than that.
\<close>

theorem expected_data_floor:
  "expected_data w h = (if (w div 16) * 4 * h = 0 then 4 * h else (w div 16) * 4 * h)
   \<and> (expected_data w h < int (length d) \<and> 0 \<le> expected_data w h \<longrightarrow>
        trim_data w h d = take (nat (expected_data w h)) d
        \<and> int (length (trim_data w h d)) = expected_data w h)
   \<and> (int (length d) \<le> expected_data w h \<longrightarrow> trim_data w h d = d)
   \<and> (1 \<le> w \<and> 0 \<le> h \<longrightarrow>
        expected_data w h = max 1 (w div 16) * 4 * h
        \<and> int (length (trim_data w h d)) \<le> max 1 (w div 16) * 4 * h)
   \<and> (parse_record_line line = Parsed s \<longrightarrow>
        sprite_data s = trim_data (sprite_width s) (sprite_height s) (drop 4 (tokenize line)))"
proof -
  have a: "expected_data w h = (if (w div 16) * 4 * h = 0 then 4 * h else (w div 16) * 4 * h)"
    by (simp add: expected_data_def Let_def)
  have b: "trim_data w h d = take (nat (expected_data w h)) d
        \<and> int (length (trim_data w h d)) = expected_data w h"
    if "expected_data w h < int (length d)" "0 \<le> expected_data w h"
    using that by (simp add: trim_data_def py_slice_to_def)
  have c: "trim_data w h d = d" if "int (length d) \<le> expected_data w h"
    using that by (simp add: trim_data_def)
  have e: "expected_data w h = max 1 (w div 16) * 4 * h
        \<and> int (length (trim_data w h d)) \<le> max 1 (w div 16) * 4 * h"
    if "1 \<le> w" "0 \<le> h"
  proof -
    have ed: "expected_data w h = max 1 (w div 16) * 4 * h"
      using that by (rule expected_data_pos)
    have nn: "0 \<le> expected_data w h" unfolding ed using that by simp
    have "int (length (trim_data w h d)) \<le> expected_data w h"
    proof (cases "expected_data w h < int (length d)")
      case True
      from b [OF True nn] have "int (length (trim_data w h d)) = expected_data w h" ..
      then show ?thesis by (simp only: order_refl)
    next
      case False
      then show ?thesis by (simp add: trim_data_def)
    qed
    with ed show ?thesis by simp
  qed
  from a b c e parse_record_line_data show ?thesis by blast
qed

theorem expected_data_floor_witness:
  \<open>trim_data 35 1 [''-256'', ''255'', ''0'', ''-1'', ''240'', ''15'', ''-16'', ''4080'', ''0'', ''0''] =
       [''-256'', ''255'', ''0'', ''-1'', ''240'', ''15'', ''-16'', ''4080'']
   \<and> trim_data 35 1 [''-256'', ''255'', ''0''] = [''-256'', ''255'', ''0'']
   \<and> expected_data 35 1 = 8 \<and> expected_data 7 3 = 12\<close>
proof -
  have h: \<open>expected_data 35 1 < int (length [''-256'', ''255'', ''0'', ''-1'', ''240'', ''15'', ''-16'', ''4080'', ''0'', ''0''])
      \<and> 0 \<le> expected_data 35 1 \<and> nat (expected_data 35 1) = 8
      \<and> int (length [''-256'', ''255'', ''0'']) \<le> expected_data 35 1\<close>
    by code_simp
  from expected_data_floor [of 35 1 \<open>[''-256'', ''255'', ''0'', ''-1'', ''240'', ''15'', ''-16'', ''4080'', ''0'', ''0'']\<close>] h
  have r1: \<open>trim_data 35 1 [''-256'', ''255'', ''0'', ''-1'', ''240'', ''15'', ''-16'', ''4080'', ''0'', ''0''] =
       [''-256'', ''255'', ''0'', ''-1'', ''240'', ''15'', ''-16'', ''4080'']\<close> by simp
  from expected_data_floor [of 35 1 \<open>[''-256'', ''255'', ''0'']\<close>] h
  have r2: \<open>trim_data 35 1 [''-256'', ''255'', ''0''] = [''-256'', ''255'', ''0'']\<close> by simp
  from expected_data_floor [of 35 1] have r3: "expected_data 35 1 = 8" by simp
  from expected_data_floor [of 7 3] have r4: "expected_data 7 3 = 12" by simp
  from r1 r2 r3 r4 show ?thesis by simp
qed

lemma strip_with_prefix:
  assumes "\<forall>x\<in>set ws. P x"
  shows "strip_with P (ws @ s) = strip_with P s"
proof -
  have "dropWhile P (ws @ s) = dropWhile P s"
    by (rule dropWhile_append2) (use assms in auto)
  then show ?thesis by (simp add: strip_with_def)
qed

lemma strip_with_suffix:
  assumes "\<forall>x\<in>set ws. P x"
  shows "strip_with P (s @ ws) = strip_with P s"
proof (cases "\<forall>x\<in>set s. P x")
  case True
  with assms have e1: "dropWhile P (s @ ws) = []" and e2: "dropWhile P s = []"
    by (simp_all add: dropWhile_eq_Nil_conv)
  show ?thesis unfolding strip_with_def e1 e2 by simp
next
  case False
  then obtain x where "x \<in> set s" "\<not> P x" by blast
  then have "dropWhile P (s @ ws) = dropWhile P s @ ws"
    by (rule dropWhile_append1)
  moreover have "dropWhile P (rev ws @ rev (dropWhile P s)) = dropWhile P (rev (dropWhile P s))"
    by (rule dropWhile_append2) (use assms in auto)
  ultimately show ?thesis unfolding strip_with_def by (simp only: rev_append)
qed

lemma py_join_py_split: "py_join sep (py_split sep s) = s"
proof (induction s)
  case Nil
  then show ?case by simp
next
  case (Cons c s)
  obtain p ps where sp: "py_split sep s = p # ps"
    using py_split_nonempty [of sep s] by (cases "py_split sep s") auto
  with Cons.IH show ?case by (simp add: py_join_Cons py_join_Cons_char)
qed

lemma py_split_pieces: "p \<in> set (py_split sep s) \<Longrightarrow> sep \<notin> set p"
proof (induction s arbitrary: p)
  case Nil
  then show ?case by simp
next
  case (Cons c s)
  obtain q qs where sp: "py_split sep s = q # qs"
    using py_split_nonempty [of sep s] by (cases "py_split sep s") auto
  with Cons show ?case by (auto split: if_splits)
qed

lemma length_py_split: "length (py_split sep s) = Suc (length (filter (\<lambda>c. c = sep) s))"
proof (induction s)
  case Nil
  then show ?case by simp
next
  case (Cons c s)
  obtain q qs where sp: "py_split sep s = q # qs"
    using py_split_nonempty [of sep s] by (cases "py_split sep s") auto
  with Cons show ?case by auto
qed

lemma py_split_prefix:
  "sep \<notin> set a \<Longrightarrow> py_split sep (a @ sep # b) = a # py_split sep b"
  by (induction a) auto

lemma in_set_dropWhile: "x \<in> set xs \<Longrightarrow> \<not> P x \<Longrightarrow> x \<in> set (dropWhile P xs)"
  by (induction xs) auto

lemma in_set_strip_with: "x \<in> set s \<Longrightarrow> \<not> P x \<Longrightarrow> x \<in> set (strip_with P s)"
  by (simp add: strip_with_def in_set_dropWhile)

lemma parse_digits_bad:
  "c \<in> set s \<Longrightarrow> \<not> is_digit c \<Longrightarrow> c \<noteq> CHR ''_'' \<Longrightarrow> parse_digits acc b s = None"
  by (induction s arbitrary: acc b) auto

lemma py_int_quote:
  assumes "CHR 0x22 \<in> set s"
  shows "py_int s = None"
proof -
  have nd: "\<not> is_digit CHR 0x22" by (simp add: is_digit_def)
  have "\<not> is_int_space CHR 0x22" by (simp add: is_int_space_def)
  with assms have q: "CHR 0x22 \<in> set (strip_with is_int_space s)"
    by (simp add: in_set_strip_with)
  then obtain c cs where st: "strip_with is_int_space s = c # cs"
    by (cases "strip_with is_int_space s") auto
  show ?thesis
  proof (cases "c = CHR ''-'' \<or> c = CHR ''+''")
    case True
    with q st have "CHR 0x22 \<in> set cs" by auto
    then have "parse_digits 0 False cs = None" using nd by (rule parse_digits_bad) simp
    with True st show ?thesis by (auto simp: py_int_def)
  next
    case False
    from q st have "parse_digits 0 False (c # cs) = None"
      using nd by (intro parse_digits_bad [of "CHR 0x22"]) simp_all
    with False st show ?thesis by (simp add: py_int_def)
  qed
qed

text \<open>
  Claim C9, as stated, fails for a quoted name with more than one comma: the second split
  field is then the text between the first two commas of the name, and when that text is
  an integer the parse returns. The header \<open>"A,5,B",3\<close> gives a library named \<open>A\<close> with
  sprite count 5.
\<close>

theorem header_quoted_comma_counterexample:
  \<open>parse_lbr_file ''"A,5,B",3'' =
     Inr \<lparr>library_name = ''A'', sprites = [],
          printed = [Library_line ''A'', Sprite_count_line 5, Empty_line]\<rparr>\<close>
  by code_simp

text \<open>
  Claim C9, amended. The header is cut at every comma, so it has one more field than it has
  commas, whatever is quoted. When the quoted library name contains exactly one comma, the
  second field is the rest of the name with the closing quote, which is no integer, and
  the whole parse ends in \<^verbatim>\<open>ValueError\<close>. The header \<open>"A,B",3\<close> is cut into three fields,
  where the record tokenizer would give two, and its parse ends in \<^verbatim>\<open>ValueError\<close>.
\<close>

theorem header_split_ignores_quotes:
  \<open>length (py_split CHR '','' header) = Suc (length (filter (\<lambda>c. c = CHR '','') header))
   \<and> (CHR '','' \<notin> set n1 \<and> CHR '','' \<notin> set n2 \<longrightarrow>
        py_split CHR '','' (CHR 0x22 # n1 @ CHR '','' # n2 @ CHR 0x22 # CHR '','' # cnt) ! 1
          = n2 @ [CHR 0x22]
        \<and> parse_header (CHR 0x22 # n1 @ CHR '','' # n2 @ CHR 0x22 # CHR '','' # cnt)
          = Inl ValueError)
   \<and> (CHR '','' \<notin> set n1 \<and> CHR '','' \<notin> set n2
        \<and> split_lines content = (CHR 0x22 # n1 @ CHR '','' # n2 @ CHR 0x22 # CHR '','' # cnt) # rest
        \<longrightarrow> parse_lbr_file content = Inl ValueError)
   \<and> py_split CHR '','' ''"A,B",3'' = [''"A'', ''B"'', ''3'']
   \<and> tokenize ''"A,B",3'' = [''"A,B"'', ''3'']
   \<and> parse_lbr_file ''"A,B",3'' = Inl ValueError\<close>
proof -
  let ?h = "CHR 0x22 # n1 @ CHR '','' # n2 @ CHR 0x22 # CHR '','' # cnt"
  have sp: "py_split CHR '','' ?h = (CHR 0x22 # n1) # (n2 @ [CHR 0x22]) # py_split CHR '','' cnt"
    if "CHR '','' \<notin> set n1" "CHR '','' \<notin> set n2"
  proof -
    from that(1) have "py_split CHR '','' ((CHR 0x22 # n1) @ CHR '','' # n2 @ CHR 0x22 # CHR '','' # cnt)
        = (CHR 0x22 # n1) # py_split CHR '','' (n2 @ CHR 0x22 # CHR '','' # cnt)"
      by (intro py_split_prefix) simp
    moreover from that(2) have "py_split CHR '','' ((n2 @ [CHR 0x22]) @ CHR '','' # cnt)
        = (n2 @ [CHR 0x22]) # py_split CHR '','' cnt"
      by (intro py_split_prefix) simp
    ultimately show ?thesis by simp
  qed
  have ph: "parse_header ?h = Inl ValueError"
    if "CHR '','' \<notin> set n1" "CHR '','' \<notin> set n2"
    unfolding parse_header_def sp [OF that] by (simp add: py_int_quote)
  have a: "py_split CHR '','' ?h ! 1 = n2 @ [CHR 0x22] \<and> parse_header ?h = Inl ValueError"
    if "CHR '','' \<notin> set n1" "CHR '','' \<notin> set n2"
    using sp [OF that] ph [OF that] by simp
  have b: "parse_lbr_file content = Inl ValueError"
    if "CHR '','' \<notin> set n1" "CHR '','' \<notin> set n2" "split_lines content = ?h # rest"
    using ph [OF that(1,2)] by (simp add: parse_lbr_file_header [OF that(3)])
  have c: \<open>py_split CHR '','' ''"A,B",3'' = [''"A'', ''B"'', ''3'']
      \<and> tokenize ''"A,B",3'' = [''"A,B"'', ''3'']
      \<and> parse_lbr_file ''"A,B",3'' = Inl ValueError\<close>
    by code_simp
  from a b c length_py_split show ?thesis by blast
qed

theorem header_split_ignores_quotes_witness:
  \<open>py_split CHR '','' ''"A,B",3'' ! 1 = ''B"''
   \<and> parse_header ''"A,B",3'' = Inl ValueError
   \<and> parse_lbr_file ''"A,B",3\<newline>0,"X",16,1,-1,-1,-1,-1'' = Inl ValueError\<close>
proof -
  have h: \<open>CHR '','' \<notin> set ''A'' \<and> CHR '','' \<notin> set ''B''
      \<and> split_lines ''"A,B",3\<newline>0,"X",16,1,-1,-1,-1,-1'' =
          (CHR 0x22 # ''A'' @ CHR '','' # ''B'' @ CHR 0x22 # CHR '','' # ''3'') # [''0,"X",16,1,-1,-1,-1,-1'']\<close>
    by code_simp
  from header_split_ignores_quotes [of _ \<open>''A''\<close> \<open>''B''\<close> \<open>''3''\<close>
      \<open>''"A,B",3\<newline>0,"X",16,1,-1,-1,-1,-1''\<close> \<open>[''0,"X",16,1,-1,-1,-1,-1'']\<close>] h
  show ?thesis by simp
qed


text \<open>
  Claim C8, as stated, fails: the text is stripped of all leading and trailing whitespace
  before it is cut into lines, so an empty first line is removed and the valid header
  after it is the header; the parse returns.
\<close>

theorem leading_blank_line_counterexample:
  \<open>split_lines ''\<newline>"T",2'' = [''"T",2'']
   \<and> parse_lbr_file ''\<newline>"T",2'' =
       Inr \<lparr>library_name = ''T'', sprites = [],
            printed = [Library_line ''T'', Sprite_count_line 2, Empty_line]\<rparr>\<close>
  by code_simp

text \<open>
  Claim C8, amended. The lines are the pieces between the line feeds of the text stripped
  of its leading and trailing whitespace: joined by line feeds they give the stripped
  text, and none contains a line feed. Whitespace before or after the text, empty lines
  included, changes neither the lines nor the result of the parse; in particular a
  document that begins with an empty line is parsed like the document without it. The
  first line is the header, and a later line that is blank adds neither a sprite nor a
  message.
\<close>

theorem lines_of_stripped_text:
  "py_join CHR 0x0A (split_lines content) = py_strip content
   \<and> list_all (\<lambda>l. CHR 0x0A \<notin> set l) (split_lines content)
   \<and> (list_all is_space ws \<longrightarrow>
        split_lines (ws @ content) = split_lines content
        \<and> split_lines (content @ ws) = split_lines content
        \<and> parse_lbr_file (ws @ content) = parse_lbr_file content
        \<and> parse_lbr_file (content @ ws) = parse_lbr_file content)
   \<and> parse_lbr_file (CHR 0x0A # content) = parse_lbr_file content
   \<and> (split_lines content = header # rest \<longrightarrow>
        parse_lbr_file content =
          (case parse_header header of
             Inl e \<Rightarrow> Inl e
           | Inr (name, sprite_count) \<Rightarrow>
               Inr \<lparr>library_name = name, sprites = fst (parse_lines 2 rest),
                    printed = [Library_line name, Sprite_count_line sprite_count, Empty_line]
                                @ snd (parse_lines 2 rest)\<rparr>))
   \<and> (py_strip line = [] \<longrightarrow> parse_lines n (line # lines) = parse_lines (Suc n) lines)"
proof -
  have a: "py_join CHR 0x0A (split_lines content) = py_strip content"
    by (simp add: split_lines_def py_join_py_split)
  have b: "list_all (\<lambda>l. CHR 0x0A \<notin> set l) (split_lines content)"
    by (simp add: split_lines_def list_all_iff py_split_pieces)
  have c: "split_lines (ws @ content) = split_lines content
        \<and> split_lines (content @ ws) = split_lines content
        \<and> parse_lbr_file (ws @ content) = parse_lbr_file content
        \<and> parse_lbr_file (content @ ws) = parse_lbr_file content"
    if "list_all is_space ws" for ws
  proof -
    from that have sp: "\<forall>x\<in>set ws. is_space x" by (simp add: list_all_iff)
    have "py_strip (ws @ content) = py_strip content" "py_strip (content @ ws) = py_strip content"
      using sp by (simp_all add: py_strip_def strip_with_prefix strip_with_suffix)
    then have "split_lines (ws @ content) = split_lines content"
      "split_lines (content @ ws) = split_lines content"
      by (simp_all add: split_lines_def)
    then show ?thesis by (simp add: parse_lbr_file_def)
  qed
  have "list_all is_space [CHR 0x0A]" by (simp add: is_space_def)
  from c [OF this] have d: "parse_lbr_file (CHR 0x0A # content) = parse_lbr_file content"
    by simp
  have e: "parse_lines n (line # lines) = parse_lines (Suc n) lines" if "py_strip line = []"
    using that by (simp add: parse_record_line_def split: prod.splits)
  from a b c d e parse_lbr_file_header show ?thesis by blast
qed

theorem lines_of_stripped_text_witness:
  \<open>split_lines (''\<newline> \<newline>'' @ ''"T",2\<newline>\<newline>0,"A",16,1,-1,-1,-1,-1'') =
      [''"T",2'', [], ''0,"A",16,1,-1,-1,-1,-1'']
   \<and> parse_lbr_file (''\<newline> \<newline>'' @ ''"T",2\<newline>\<newline>0,"A",16,1,-1,-1,-1,-1'') =
       parse_lbr_file ''"T",2\<newline>\<newline>0,"A",16,1,-1,-1,-1,-1''
   \<and> parse_lines 3 [[], ''0,"A",16,1,-1,-1,-1,-1''] = parse_lines 4 [''0,"A",16,1,-1,-1,-1,-1'']\<close>
proof -
  have h: \<open>list_all is_space ''\<newline> \<newline>'' \<and> py_strip [] = []
      \<and> split_lines ''"T",2\<newline>\<newline>0,"A",16,1,-1,-1,-1,-1'' =
          [''"T",2'', [], ''0,"A",16,1,-1,-1,-1,-1'']\<close>
    by code_simp
  from lines_of_stripped_text [of \<open>''"T",2\<newline>\<newline>0,"A",16,1,-1,-1,-1,-1''\<close> \<open>''\<newline> \<newline>''\<close>
      _ _ \<open>[]\<close> 3 \<open>[''0,"A",16,1,-1,-1,-1,-1'']\<close>] h
  show ?thesis by (simp del: append.simps parse_lines.simps)
qed

end
